theory Spec2Isabelle
  imports Main "HOL-Library.AList"
begin

section \<open>The signaling server of \<^verbatim>\<open>server/src/index.js\<close>\<close>

text \<open>
  The WebRTC signaling part of the server keeps one table, \<^verbatim>\<open>activeRooms\<close>
  (a JavaScript \<^verbatim>\<open>Map\<close> from room id to a \<^verbatim>\<open>Set\<close> of user ids), and uses the
  rooms of Socket.IO for delivery: \<^verbatim>\<open>socket.join\<close>, \<^verbatim>\<open>socket.leave\<close> and
  \<^verbatim>\<open>socket.to(room).emit\<close>. Room ids, user ids and socket ids are all JavaScript
  strings; the handlers compare a socket id with user ids on disconnect, so the three
  share one type.
\<close>

type_synonym room_id = string
type_synonym user_id = string
type_synonym socket_id = string
type_synonym payload = string

text \<open>The events the server emits to clients, with their arguments.\<close>

datatype out_msg =
    UserConnected user_id
  | UserDisconnected user_id
  | OfferMsg payload socket_id user_id
  | AnswerMsg payload socket_id user_id
  | IceCandidateMsg payload socket_id user_id
  | UserAudioToggled user_id bool
  | UserVideoToggled user_id bool

text \<open>A delivery is one emitted event arriving at one socket.\<close>

type_synonym delivery = "socket_id \<times> out_msg"

text \<open>
  The state: \<^verbatim>\<open>activeRooms\<close> as an association list in insertion order (the order
  \<^verbatim>\<open>Map.forEach\<close> visits), each \<^verbatim>\<open>Set\<close> as a list in insertion order, and the
  Socket.IO rooms as the list of sockets joined to each room name.
\<close>

record server =
  activeRooms :: "(room_id \<times> user_id list) list"
  sio_rooms :: "room_id \<Rightarrow> socket_id list"

definition initial :: server where
  "initial = \<lparr>activeRooms = [], sio_rooms = (\<lambda>_. [])\<rparr>"

subsection \<open>JavaScript \<^verbatim>\<open>Set\<close> and \<^verbatim>\<open>Map\<close>\<close>

definition set_add :: "'a \<Rightarrow> 'a list \<Rightarrow> 'a list" where
  "set_add x xs = (if x \<in> set xs then xs else xs @ [x])"

definition set_delete :: "'a \<Rightarrow> 'a list \<Rightarrow> 'a list" where
  "set_delete x xs = removeAll x xs"

definition map_has :: "'k \<Rightarrow> ('k \<times> 'v) list \<Rightarrow> bool" where
  "map_has k m = (map_of m k \<noteq> None)"

definition map_set :: "'k \<Rightarrow> 'v \<Rightarrow> ('k \<times> 'v) list \<Rightarrow> ('k \<times> 'v) list" where
  "map_set k v m = AList.update k v m"

definition map_delete :: "'k \<Rightarrow> ('k \<times> 'v) list \<Rightarrow> ('k \<times> 'v) list" where
  "map_delete k m = AList.delete k m"

subsection \<open>The Socket.IO primitives the handlers call\<close>

text \<open>
  Socket.IO is a library, not code of this repository; its primitives follow Socket.IO 4.
  \<^verbatim>\<open>socket.join(room)\<close> adds the socket to the room and \<^verbatim>\<open>socket.leave(room)\<close>
  removes it. A new socket joins the room named by its own id, and a closing socket has
  left all its rooms when its \<^verbatim>\<open>disconnect\<close> handlers run.

  \<^verbatim>\<open>socket.to(room).emit(...)\<close> builds a broadcast to \<^verbatim>\<open>room\<close> whose set of
  excepted rooms is the one room named by the id of the sender. The adapter sends the
  event to every socket of \<^verbatim>\<open>room\<close> that is in no excepted room. So the sender is
  skipped because it is in the room named by its id, and so is every other socket that
  has joined that room; a sender that has left the room named by its id is not skipped.
\<close>

definition socket_join ::
  "socket_id \<Rightarrow> room_id \<Rightarrow> (room_id \<Rightarrow> socket_id list) \<Rightarrow> (room_id \<Rightarrow> socket_id list)" where
  "socket_join socket roomId sio = sio(roomId := set_add socket (sio roomId))"

definition socket_leave ::
  "socket_id \<Rightarrow> room_id \<Rightarrow> (room_id \<Rightarrow> socket_id list) \<Rightarrow> (room_id \<Rightarrow> socket_id list)" where
  "socket_leave socket roomId sio = sio(roomId := set_delete socket (sio roomId))"

definition socket_leave_all ::
  "socket_id \<Rightarrow> (room_id \<Rightarrow> socket_id list) \<Rightarrow> (room_id \<Rightarrow> socket_id list)" where
  "socket_leave_all socket sio = (\<lambda>roomId. set_delete socket (sio roomId))"

definition socket_to_emit ::
  "socket_id \<Rightarrow> room_id \<Rightarrow> out_msg \<Rightarrow> (room_id \<Rightarrow> socket_id list) \<Rightarrow> delivery list" where
  "socket_to_emit socket roomId msg sio =
     map (\<lambda>t. (t, msg)) (filter (\<lambda>t. t \<notin> set (sio socket)) (sio roomId))"

subsection \<open>The handlers\<close>

text \<open>
  Each handler takes the socket it is registered on, the arguments of the event and the
  state, and returns the new state with the deliveries it caused. No handler has a
  failing path: \<^verbatim>\<open>activeRooms.get(roomId)\<close> is only used after \<^verbatim>\<open>has\<close> or \<^verbatim>\<open>set\<close>.
\<close>

definition connection :: "socket_id \<Rightarrow> server \<Rightarrow> server \<times> delivery list" where
  "connection socket st = (st\<lparr>sio_rooms := socket_join socket socket (sio_rooms st)\<rparr>, [])"

definition join_room ::
  "socket_id \<Rightarrow> room_id \<Rightarrow> user_id \<Rightarrow> server \<Rightarrow> server \<times> delivery list" where
  "join_room socket roomId userId st =
     (let sio = socket_join socket roomId (sio_rooms st);
          ar = (if \<not> map_has roomId (activeRooms st)
                then map_set roomId [] (activeRooms st) else activeRooms st);
          ar' = (case map_of ar roomId of
                   Some participants \<Rightarrow> map_set roomId (set_add userId participants) ar
                 | None \<Rightarrow> ar)
      in (\<lparr>activeRooms = ar', sio_rooms = sio\<rparr>,
          socket_to_emit socket roomId (UserConnected userId) sio))"

definition offer ::
  "socket_id \<Rightarrow> room_id \<Rightarrow> payload \<Rightarrow> user_id \<Rightarrow> server \<Rightarrow> server \<times> delivery list" where
  "offer socket roomId sdp targetUserId st =
     (st, socket_to_emit socket roomId (OfferMsg sdp socket targetUserId) (sio_rooms st))"

definition answer ::
  "socket_id \<Rightarrow> room_id \<Rightarrow> payload \<Rightarrow> user_id \<Rightarrow> server \<Rightarrow> server \<times> delivery list" where
  "answer socket roomId sdp targetUserId st =
     (st, socket_to_emit socket roomId (AnswerMsg sdp socket targetUserId) (sio_rooms st))"

definition ice_candidate ::
  "socket_id \<Rightarrow> room_id \<Rightarrow> payload \<Rightarrow> user_id \<Rightarrow> server \<Rightarrow> server \<times> delivery list" where
  "ice_candidate socket roomId candidate targetUserId st =
     (st, socket_to_emit socket roomId (IceCandidateMsg candidate socket targetUserId)
            (sio_rooms st))"

definition toggle_audio ::
  "socket_id \<Rightarrow> room_id \<Rightarrow> user_id \<Rightarrow> bool \<Rightarrow> server \<Rightarrow> server \<times> delivery list" where
  "toggle_audio socket roomId userId isAudioEnabled st =
     (st, socket_to_emit socket roomId (UserAudioToggled userId isAudioEnabled) (sio_rooms st))"

definition toggle_video ::
  "socket_id \<Rightarrow> room_id \<Rightarrow> user_id \<Rightarrow> bool \<Rightarrow> server \<Rightarrow> server \<times> delivery list" where
  "toggle_video socket roomId userId isVideoEnabled st =
     (st, socket_to_emit socket roomId (UserVideoToggled userId isVideoEnabled) (sio_rooms st))"

definition leave_room ::
  "socket_id \<Rightarrow> room_id \<Rightarrow> user_id \<Rightarrow> server \<Rightarrow> server \<times> delivery list" where
  "leave_room socket roomId userId st =
     (let sio = socket_leave socket roomId (sio_rooms st);
          ar = (case map_of (activeRooms st) roomId of
                  None \<Rightarrow> activeRooms st
                | Some participants \<Rightarrow>
                    (let participants' = set_delete userId participants;
                         ar1 = map_set roomId participants' (activeRooms st)
                     in if length participants' = 0 then map_delete roomId ar1 else ar1))
      in (\<lparr>activeRooms = ar, sio_rooms = sio\<rparr>,
          socket_to_emit socket roomId (UserDisconnected userId) sio))"

text \<open>
  One visit of \<^verbatim>\<open>activeRooms.forEach\<close> in the disconnect handler. The callback
  changes only the entry it is visiting, so the entries still to come are the ones of
  the table as it was when the loop started.
\<close>

fun disconnect_visit ::
  "socket_id \<Rightarrow> (room_id \<Rightarrow> socket_id list) \<Rightarrow> room_id \<times> user_id list \<Rightarrow>
   (room_id \<times> user_id list) list \<times> delivery list \<Rightarrow>
   (room_id \<times> user_id list) list \<times> delivery list" where
  "disconnect_visit socket sio (roomId, participants) (ar, out) =
     (if socket \<in> set participants then
        (let participants' = set_delete socket participants;
             ar1 = map_set roomId participants' ar;
             out' = out @ socket_to_emit socket roomId (UserDisconnected socket) sio
         in (if length participants' = 0 then map_delete roomId ar1 else ar1, out'))
      else (ar, out))"

definition disconnect :: "socket_id \<Rightarrow> server \<Rightarrow> server \<times> delivery list" where
  "disconnect socket st =
     (let sio = socket_leave_all socket (sio_rooms st);
          res = fold (disconnect_visit socket sio) (activeRooms st) (activeRooms st, [])
      in (\<lparr>activeRooms = fst res, sio_rooms = sio\<rparr>, snd res))"

subsection \<open>Events and runs\<close>

datatype event =
    Connection socket_id
  | JoinRoom socket_id room_id user_id
  | Offer socket_id room_id payload user_id
  | Answer socket_id room_id payload user_id
  | IceCandidate socket_id room_id payload user_id
  | ToggleAudio socket_id room_id user_id bool
  | ToggleVideo socket_id room_id user_id bool
  | LeaveRoom socket_id room_id user_id
  | Disconnect socket_id

fun step :: "event \<Rightarrow> server \<Rightarrow> server \<times> delivery list" where
  "step (Connection s) st = connection s st"
| "step (JoinRoom s r u) st = join_room s r u st"
| "step (Offer s r p t) st = offer s r p t st"
| "step (Answer s r p t) st = answer s r p t st"
| "step (IceCandidate s r p t) st = ice_candidate s r p t st"
| "step (ToggleAudio s r u b) st = toggle_audio s r u b st"
| "step (ToggleVideo s r u b) st = toggle_video s r u b st"
| "step (LeaveRoom s r u) st = leave_room s r u st"
| "step (Disconnect s) st = disconnect s st"

definition run :: "event list \<Rightarrow> server \<Rightarrow> server" where
  "run evs st = fold (\<lambda>e s. fst (step e s)) evs st"

text \<open>The membership set of a room: empty when the room has no entry.\<close>

definition members :: "server \<Rightarrow> room_id \<Rightarrow> user_id set" where
  "members st roomId =
     (case map_of (activeRooms st) roomId of None \<Rightarrow> {} | Some participants \<Rightarrow> set participants)"

definition room_exists :: "server \<Rightarrow> room_id \<Rightarrow> bool" where
  "room_exists st roomId = map_has roomId (activeRooms st)"

section \<open>Notions used to state the properties\<close>

subsection \<open>Invariant of the room table\<close>

text \<open>
  Every room id has at most one entry and no entry holds an empty set. The first half is
  what a JavaScript \<^verbatim>\<open>Map\<close> guarantees by construction; the second is what the
  handlers maintain.
\<close>

definition nonempty_rooms :: "(room_id \<times> user_id list) list \<Rightarrow> bool" where
  "nonempty_rooms ar = (distinct (map fst ar) \<and> (\<forall>r ps. map_of ar r = Some ps \<longrightarrow> ps \<noteq> []))"

text \<open>
  What one visit of the disconnect loop leaves of an entry that holds the socket id: the
  set without it, or no entry when nothing remains.
\<close>

definition after_disconnect :: "socket_id \<Rightarrow> user_id list \<Rightarrow> user_id list option" where
  "after_disconnect s ps = (if set_delete s ps = [] then None else Some (set_delete s ps))"

subsection \<open>Joined and not subsequently left\<close>

text \<open>
  The specification describes the membership set of a room as the identities that joined
  it and did not subsequently leave it. \<open>joined_not_left\<close> follows these words on a
  sequence of events, independently of the handlers: some \<^verbatim>\<open>join-room\<close> of the
  identity for the room has no \<^verbatim>\<open>leave-room\<close> of that identity for that room
  after it.
\<close>

fun join_or_leave :: "event \<Rightarrow> bool" where
  "join_or_leave (JoinRoom s r u) = True"
| "join_or_leave (LeaveRoom s r u) = True"
| "join_or_leave _ = False"

fun joins :: "room_id \<Rightarrow> user_id \<Rightarrow> event \<Rightarrow> bool" where
  "joins R I (JoinRoom s r u) = (r = R \<and> u = I)"
| "joins R I _ = False"

fun leaves :: "room_id \<Rightarrow> user_id \<Rightarrow> event \<Rightarrow> bool" where
  "leaves R I (LeaveRoom s r u) = (r = R \<and> u = I)"
| "leaves R I _ = False"

fun joined_not_left :: "event list \<Rightarrow> room_id \<Rightarrow> user_id \<Rightarrow> bool" where
  "joined_not_left [] R I = False"
| "joined_not_left (e # es) R I =
     ((joins R I e \<and> \<not> list_ex (leaves R I) es) \<or> joined_not_left es R I)"

subsection \<open>One room per identity\<close>

text \<open>
  \<open>one_room_each\<close> says that no identity is a member of two rooms. The handlers do
  not enforce it; \<open>exclusive_joins\<close> describes the runs in which the clients do, by
  never sending \<^verbatim>\<open>join-room\<close> for an identity that is a member of another room.
\<close>

fun exclusive_join :: "server \<Rightarrow> event \<Rightarrow> bool" where
  "exclusive_join st (JoinRoom s R I) =
     list_all (\<lambda>(r, ps). I \<in> set ps \<longrightarrow> r = R) (activeRooms st)"
| "exclusive_join st _ = True"

fun exclusive_joins :: "event list \<Rightarrow> server \<Rightarrow> bool" where
  "exclusive_joins [] st = True"
| "exclusive_joins (e # es) st = (exclusive_join st e \<and> exclusive_joins es (fst (step e st)))"

definition one_room_each :: "server \<Rightarrow> bool" where
  "one_room_each st = (\<forall>I R R'. I \<in> members st R \<longrightarrow> I \<in> members st R' \<longrightarrow> R = R')"

subsection \<open>Identities and their connections\<close>

text \<open>
  The server keeps no table from identities to sockets: \<^verbatim>\<open>activeRooms\<close> holds
  user ids, Socket.IO holds socket ids. A statement about the connection of an identity
  therefore needs the binding \<open>conn\<close> as a parameter. \<open>bound_in conn st R\<close> says
  that different identities have different connections and that the sockets in the
  Socket.IO room \<open>R\<close> are exactly the connections of the members of \<open>R\<close>.
\<close>

definition bound_in :: "(user_id \<Rightarrow> socket_id) \<Rightarrow> server \<Rightarrow> room_id \<Rightarrow> bool" where
  "bound_in conn st R = (inj conn \<and> set (sio_rooms st R) = conn ` members st R)"

text \<open>
  \<open>own_room_only st s\<close> says that the socket \<open>s\<close> is in the room named by its id and
  that no other socket has joined that room: the state in which a broadcast of \<open>s\<close>
  skips \<open>s\<close> and nobody else.
\<close>

definition own_room_only :: "server \<Rightarrow> socket_id \<Rightarrow> bool" where
  "own_room_only st s = (set (sio_rooms st s) = {s})"

subsection \<open>Concrete runs\<close>

text \<open>
  A call in room \<^verbatim>\<open>r1\<close> with three participants, each on the socket named after
  it, and a fourth socket that is connected and has joined no room.
\<close>

definition socket_of :: "user_id \<Rightarrow> socket_id" where
  "socket_of I = ''s-'' @ I"

definition call_r1_events :: "event list" where
  "call_r1_events =
     [Connection ''s-alice'', JoinRoom ''s-alice'' ''r1'' ''alice'',
      Connection ''s-bob'', JoinRoom ''s-bob'' ''r1'' ''bob'',
      Connection ''s-carol'', JoinRoom ''s-carol'' ''r1'' ''carol'',
      Connection ''s-dave'']"

definition call_r1 :: server where
  "call_r1 = run call_r1_events initial"

text \<open>
  A call of two in \<^verbatim>\<open>r1\<close> in which the socket of \<^verbatim>\<open>bob\<close> has also joined the
  room named by the socket id of \<^verbatim>\<open>alice\<close> (a room id is any string a client
  sends, and socket ids are sent to the peers with every offer).
\<close>

definition muted_call_events :: "event list" where
  "muted_call_events =
     [Connection ''s-alice'', JoinRoom ''s-alice'' ''r1'' ''alice'',
      Connection ''s-bob'', JoinRoom ''s-bob'' ''r1'' ''bob'',
      JoinRoom ''s-bob'' ''s-alice'' ''bob'']"

definition muted_call :: server where
  "muted_call = run muted_call_events initial"

text \<open>
  The call of three, after the socket of \<^verbatim>\<open>bob\<close> has joined the room named by the
  id of the fourth socket.
\<close>

definition screened_call :: server where
  "screened_call = run (call_r1_events @ [JoinRoom ''s-bob'' ''s-dave'' ''bob'']) initial"

text \<open>Joins and leaves with a duplicate join and a duplicate leave.\<close>

definition join_leave_events :: "event list" where
  "join_leave_events =
     [JoinRoom ''s-alice'' ''r1'' ''alice'', JoinRoom ''s-bob'' ''r1'' ''bob'',
      JoinRoom ''s-bob'' ''r1'' ''bob'', LeaveRoom ''s-alice'' ''r1'' ''alice'',
      LeaveRoom ''s-alice'' ''r1'' ''alice'']"

text \<open>One identity joining a second room without leaving the first.\<close>

definition joined_twice :: server where
  "joined_twice =
     run [Connection ''s-alice'', JoinRoom ''s-alice'' ''r1'' ''alice'',
          JoinRoom ''s-alice'' ''r2'' ''alice''] initial"

text \<open>One identity leaving its room before joining another.\<close>

definition moved_rooms_events :: "event list" where
  "moved_rooms_events =
     [Connection ''s-alice'', JoinRoom ''s-alice'' ''r1'' ''alice'',
      LeaveRoom ''s-alice'' ''r1'' ''alice'', JoinRoom ''s-alice'' ''r2'' ''alice'']"

section \<open>Properties of the handlers\<close>

subsection \<open>Auxiliary facts\<close>

lemma run_Nil: "run [] st = st"
  by (simp add: run_def)

lemma run_Cons: "run (e # evs) st = run evs (fst (step e st))"
  by (simp add: run_def)

lemma set_add_set: "set (set_add x xs) = insert x (set xs)"
  by (auto simp: set_add_def)

lemma set_delete_set: "set (set_delete x xs) = set xs - {x}"
  by (simp add: set_delete_def)

lemma activeRooms_join:
  "map_of (activeRooms (fst (join_room s R I st))) =
     (map_of (activeRooms st))(R \<mapsto> set_add I (case map_of (activeRooms st) R of None \<Rightarrow> [] | Some ps \<Rightarrow> ps))"
  by (auto simp: join_room_def Let_def map_has_def map_set_def update_conv' split: option.splits)

lemma members_join:
  "members (fst (join_room s R I st)) R' =
     (if R' = R then insert I (members st R) else members st R')"
  by (auto simp: members_def activeRooms_join set_add_set split: option.splits)

lemma activeRooms_leave:
  "map_of (activeRooms (fst (leave_room s R I st))) =
     (case map_of (activeRooms st) R of None \<Rightarrow> map_of (activeRooms st)
      | Some ps \<Rightarrow> if set_delete I ps = [] then (map_of (activeRooms st))(R := None)
                  else (map_of (activeRooms st))(R \<mapsto> set_delete I ps))"
  by (auto simp: leave_room_def Let_def map_set_def map_delete_def update_conv' delete_conv'
      split: option.splits)

lemma set_delete_Nil: "set_delete x xs = [] \<longleftrightarrow> set xs \<subseteq> {x}"
  by (induction xs) (auto simp: set_delete_def)

lemma members_leave:
  "members (fst (leave_room s R I st)) R' =
     (if R' = R then members st R - {I} else members st R')"
proof (cases "map_of (activeRooms st) R")
  case None
  then show ?thesis by (auto simp: members_def activeRooms_leave)
next
  case (Some ps)
  show ?thesis
  proof (cases "set_delete I ps = []")
    case True
    with Some have "set ps - {I} = {}" by (auto simp: set_delete_Nil)
    with Some True show ?thesis by (simp add: members_def activeRooms_leave)
  next
    case False
    with Some show ?thesis by (simp add: members_def activeRooms_leave set_delete_set)
  qed
qed

lemma nonempty_rooms_join:
  "nonempty_rooms (activeRooms st) \<Longrightarrow> nonempty_rooms (activeRooms (fst (join_room s R I st)))"
  unfolding nonempty_rooms_def
proof (intro conjI allI impI)
  assume a: "distinct (map fst (activeRooms st)) \<and> (\<forall>r ps. map_of (activeRooms st) r = Some ps \<longrightarrow> ps \<noteq> [])"
  then show "distinct (map fst (activeRooms (fst (join_room s R I st))))"
    by (auto simp: join_room_def Let_def map_set_def map_has_def distinct_update split: option.splits)
  fix r ps
  assume "map_of (activeRooms (fst (join_room s R I st))) r = Some ps"
  with a show "ps \<noteq> []"
    by (auto simp: activeRooms_join set_add_def split: if_splits option.splits)
qed

lemma nonempty_rooms_leave:
  "nonempty_rooms (activeRooms st) \<Longrightarrow> nonempty_rooms (activeRooms (fst (leave_room s R I st)))"
  unfolding nonempty_rooms_def
proof (intro conjI allI impI)
  assume a: "distinct (map fst (activeRooms st)) \<and> (\<forall>r ps. map_of (activeRooms st) r = Some ps \<longrightarrow> ps \<noteq> [])"
  then show "distinct (map fst (activeRooms (fst (leave_room s R I st))))"
    by (auto simp: leave_room_def Let_def map_set_def map_delete_def distinct_update distinct_delete
        split: option.splits)
  fix r ps
  assume "map_of (activeRooms (fst (leave_room s R I st))) r = Some ps"
  with a show "ps \<noteq> []"
    by (auto simp: activeRooms_leave split: if_splits option.splits)
qed

text \<open>The disconnect loop, entry by entry.\<close>

lemma disconnect_visit_map_of:
  "map_of (fst (disconnect_visit s sio (r, ps) (ar, out))) =
     (if s \<in> set ps then (map_of ar)(r := after_disconnect s ps) else map_of ar)"
  by (auto simp: Let_def map_set_def map_delete_def update_conv' delete_conv' after_disconnect_def)

lemma disconnect_visit_distinct:
  "distinct (map fst ar) \<Longrightarrow> distinct (map fst (fst (disconnect_visit s sio e (ar, out))))"
  by (cases e) (auto simp: Let_def map_set_def map_delete_def distinct_update distinct_delete)

lemma fold_disconnect_distinct:
  "distinct (map fst ar) \<Longrightarrow> distinct (map fst (fst (fold (disconnect_visit s sio) es (ar, out))))"
proof (induction es arbitrary: ar out)
  case Nil
  then show ?case by simp
next
  case (Cons e es)
  obtain ar' out' where v: "disconnect_visit s sio e (ar, out) = (ar', out')"
    by (cases "disconnect_visit s sio e (ar, out)")
  with Cons.prems disconnect_visit_distinct [of ar s sio e out]
  have "distinct (map fst ar')" by simp
  from Cons.IH [OF this] v show ?case by simp
qed

lemma fold_disconnect_map_of:
  "distinct (map fst es) \<Longrightarrow>
   map_of (fst (fold (disconnect_visit s sio) es (ar, out))) r =
     (case map_of es r of
        None \<Rightarrow> map_of ar r
      | Some ps \<Rightarrow> if s \<in> set ps then after_disconnect s ps else map_of ar r)"
proof (induction es arbitrary: ar out)
  case Nil
  then show ?case by simp
next
  case (Cons e es)
  obtain r0 ps0 where e: "e = (r0, ps0)" by (cases e)
  obtain ar' out' where v: "disconnect_visit s sio (r0, ps0) (ar, out) = (ar', out')"
    by (cases "disconnect_visit s sio (r0, ps0) (ar, out)")
  from v disconnect_visit_map_of [of s sio r0 ps0 ar out]
  have ar': "map_of ar' = (if s \<in> set ps0 then (map_of ar)(r0 := after_disconnect s ps0) else map_of ar)"
    by simp
  from Cons.prems e have d: "distinct (map fst es)" and n: "map_of es r0 = None"
    by (auto simp: map_of_eq_None_iff)
  have "map_of (fst (fold (disconnect_visit s sio) (e # es) (ar, out))) r =
        map_of (fst (fold (disconnect_visit s sio) es (ar', out'))) r"
    using e v by simp
  also have "\<dots> = (case map_of es r of None \<Rightarrow> map_of ar' r
      | Some ps \<Rightarrow> if s \<in> set ps then after_disconnect s ps else map_of ar' r)"
    by (rule Cons.IH [OF d])
  also have "\<dots> = (case map_of (e # es) r of None \<Rightarrow> map_of ar r
      | Some ps \<Rightarrow> if s \<in> set ps then after_disconnect s ps else map_of ar r)"
    using e n ar' by (auto split: option.splits)
  finally show ?case .
qed

lemma activeRooms_disconnect:
  assumes "distinct (map fst (activeRooms st))"
  shows "map_of (activeRooms (fst (disconnect s st))) r =
     (case map_of (activeRooms st) r of None \<Rightarrow> None
      | Some ps \<Rightarrow> if s \<in> set ps then after_disconnect s ps else Some ps)"
  using fold_disconnect_map_of [OF assms, of s _ "activeRooms st" "[]" r]
  by (auto simp: disconnect_def Let_def split: option.splits)

lemma members_disconnect:
  assumes "distinct (map fst (activeRooms st))"
  shows "members (fst (disconnect s st)) r = members st r - {s}"
  using activeRooms_disconnect [OF assms, of s r]
  by (auto simp: members_def after_disconnect_def set_delete_Nil set_delete_set
      split: option.splits if_splits)

lemma nonempty_rooms_disconnect:
  assumes "nonempty_rooms (activeRooms st)"
  shows "nonempty_rooms (activeRooms (fst (disconnect s st)))"
proof -
  from assms have d: "distinct (map fst (activeRooms st))"
    and n: "\<And>r ps. map_of (activeRooms st) r = Some ps \<Longrightarrow> ps \<noteq> []"
    by (auto simp: nonempty_rooms_def)
  have "distinct (map fst (activeRooms (fst (disconnect s st))))"
    using fold_disconnect_distinct [OF d] by (simp add: disconnect_def Let_def)
  moreover have "ps \<noteq> []" if "map_of (activeRooms (fst (disconnect s st))) r = Some ps" for r ps
    using that n [of r] activeRooms_disconnect [OF d, of s r]
    by (auto simp: after_disconnect_def split: option.splits if_splits)
  ultimately show ?thesis by (simp add: nonempty_rooms_def)
qed

lemma nonempty_rooms_step:
  "nonempty_rooms (activeRooms st) \<Longrightarrow> nonempty_rooms (activeRooms (fst (step e st)))"
  by (cases e)
     (simp_all add: nonempty_rooms_join nonempty_rooms_leave nonempty_rooms_disconnect
        connection_def offer_def answer_def ice_candidate_def toggle_audio_def toggle_video_def)

lemma nonempty_rooms_run:
  "nonempty_rooms (activeRooms st) \<Longrightarrow> nonempty_rooms (activeRooms (run evs st))"
  by (induction evs arbitrary: st) (simp_all add: run_Nil run_Cons nonempty_rooms_step)

lemma nonempty_rooms_initial: "nonempty_rooms (activeRooms initial)"
  by (simp add: nonempty_rooms_def initial_def)

lemma members_step_join_or_leave:
  "join_or_leave e \<Longrightarrow>
   I \<in> members (fst (step e st)) R \<longleftrightarrow> joins R I e \<or> (I \<in> members st R \<and> \<not> leaves R I e)"
  by (cases e) (auto simp: members_join members_leave)

lemma members_run_join_or_leave:
  "list_all join_or_leave evs \<Longrightarrow>
   I \<in> members (run evs st) R \<longleftrightarrow>
     joined_not_left evs R I \<or> (I \<in> members st R \<and> \<not> list_ex (leaves R I) evs)"
proof (induction evs arbitrary: st)
  case Nil
  then show ?case by (simp add: run_Nil)
next
  case (Cons e es)
  then have e: "join_or_leave e" and es: "list_all join_or_leave es" by simp_all
  show ?case
    unfolding run_Cons Cons.IH [OF es] members_step_join_or_leave [OF e]
    by auto
qed

lemma members_initial: "members initial R = {}"
  by (simp add: members_def initial_def)

lemma exclusive_join_members:
  assumes "distinct (map fst (activeRooms st))"
  shows "exclusive_join st (JoinRoom s R I) \<longleftrightarrow> (\<forall>r. I \<in> members st r \<longrightarrow> r = R)"
proof -
  have m: "(r, ps) \<in> set (activeRooms st) \<longleftrightarrow> map_of (activeRooms st) r = Some ps" for r ps
    using assms by simp
  have "exclusive_join st (JoinRoom s R I) \<longleftrightarrow>
        (\<forall>r ps. (r, ps) \<in> set (activeRooms st) \<longrightarrow> I \<in> set ps \<longrightarrow> r = R)"
    by (auto simp: list_all_iff)
  also have "\<dots> \<longleftrightarrow> (\<forall>r ps. map_of (activeRooms st) r = Some ps \<longrightarrow> I \<in> set ps \<longrightarrow> r = R)"
    unfolding m ..
  also have "\<dots> \<longleftrightarrow> (\<forall>r. I \<in> members st r \<longrightarrow> r = R)"
    by (auto simp: members_def split: option.splits)
  finally show ?thesis .
qed

lemma one_room_each_step:
  assumes "nonempty_rooms (activeRooms st)" and "one_room_each st" and "exclusive_join st e"
  shows "one_room_each (fst (step e st))"
proof -
  from assms(1) have d: "distinct (map fst (activeRooms st))" by (simp add: nonempty_rooms_def)
  show ?thesis
  proof (cases e)
    case (JoinRoom s R I)
    with assms(3) exclusive_join_members [OF d, of s R I]
    have "\<And>r. I \<in> members st r \<Longrightarrow> r = R" by simp
    with assms(2) JoinRoom show ?thesis
      by (auto simp: one_room_each_def members_join split: if_splits)
  next
    case (LeaveRoom s R I)
    with assms(2) show ?thesis
      by (auto simp: one_room_each_def members_leave split: if_splits)
  next
    case (Disconnect s)
    with assms(2) show ?thesis
      by (auto simp: one_room_each_def members_disconnect [OF d])
  qed (use assms(2) in \<open>simp_all add: connection_def offer_def answer_def ice_candidate_def
        toggle_audio_def toggle_video_def one_room_each_def members_def\<close>)
qed

lemma one_room_each_run:
  "nonempty_rooms (activeRooms st) \<Longrightarrow> one_room_each st \<Longrightarrow> exclusive_joins evs st \<Longrightarrow>
   one_room_each (run evs st)"
proof (induction evs arbitrary: st)
  case Nil
  then show ?case by (simp add: run_Nil)
next
  case (Cons e es)
  then show ?case
    by (simp add: run_Cons nonempty_rooms_step one_room_each_step)
qed

lemmas handler_defs =
  connection_def join_room_def offer_def answer_def ice_candidate_def toggle_audio_def
  toggle_video_def leave_room_def disconnect_def socket_join_def socket_leave_def
  socket_leave_all_def socket_to_emit_def set_add_def set_delete_def map_has_def map_set_def
  map_delete_def

text \<open>The state of the concrete call.\<close>

lemma call_r1_activeRooms: "activeRooms call_r1 = [(''r1'', [''alice'', ''bob'', ''carol''])]"
  by (simp add: call_r1_def call_r1_events_def run_def initial_def handler_defs)

lemma call_r1_sio_r1: "sio_rooms call_r1 ''r1'' = [''s-alice'', ''s-bob'', ''s-carol'']"
  by (simp add: call_r1_def call_r1_events_def run_def initial_def handler_defs)

lemma call_r1_members: "members call_r1 ''r1'' = {''alice'', ''bob'', ''carol''}"
  by (simp add: members_def call_r1_activeRooms)

lemma inj_socket_of: "inj socket_of"
  by (simp add: inj_def socket_of_def)

lemma bound_in_call_r1: "bound_in socket_of call_r1 ''r1''"
  by (simp add: bound_in_def inj_socket_of call_r1_sio_r1 call_r1_members socket_of_def)

lemma call_r1_sio_alice: "sio_rooms call_r1 ''s-alice'' = [''s-alice'']"
  by (simp add: call_r1_def call_r1_events_def run_def initial_def handler_defs)

lemma call_r1_sio_dave: "sio_rooms call_r1 ''s-dave'' = [''s-dave'']"
  by (simp add: call_r1_def call_r1_events_def run_def initial_def handler_defs)

lemma own_room_only_call_r1:
  "own_room_only call_r1 ''s-alice''" "own_room_only call_r1 ''s-dave''"
  by (simp_all add: own_room_only_def call_r1_sio_alice call_r1_sio_dave)

text \<open>The states in which a socket has joined the room named by the id of another.\<close>

lemma muted_call_activeRooms:
  "activeRooms muted_call = [(''r1'', [''alice'', ''bob'']), (''s-alice'', [''bob''])]"
  by (simp add: muted_call_def muted_call_events_def run_def initial_def handler_defs)

lemma muted_call_sio_r1: "sio_rooms muted_call ''r1'' = [''s-alice'', ''s-bob'']"
  by (simp add: muted_call_def muted_call_events_def run_def initial_def handler_defs)

lemma muted_call_sio_alice: "sio_rooms muted_call ''s-alice'' = [''s-alice'', ''s-bob'']"
  by (simp add: muted_call_def muted_call_events_def run_def initial_def handler_defs)

lemma muted_call_members: "members muted_call ''r1'' = {''alice'', ''bob''}"
  by (simp add: members_def muted_call_activeRooms)

lemma bound_in_muted_call: "bound_in socket_of muted_call ''r1''"
  by (simp add: bound_in_def inj_socket_of muted_call_sio_r1 muted_call_members socket_of_def)

lemma screened_call_activeRooms:
  "activeRooms screened_call =
     [(''r1'', [''alice'', ''bob'', ''carol'']), (''s-dave'', [''bob''])]"
  by (simp add: screened_call_def call_r1_events_def run_def initial_def handler_defs)

lemma screened_call_sio_r1: "sio_rooms screened_call ''r1'' = [''s-alice'', ''s-bob'', ''s-carol'']"
  by (simp add: screened_call_def call_r1_events_def run_def initial_def handler_defs)

lemma screened_call_sio_dave: "sio_rooms screened_call ''s-dave'' = [''s-dave'', ''s-bob'']"
  by (simp add: screened_call_def call_r1_events_def run_def initial_def handler_defs)

lemma screened_call_members: "members screened_call ''r1'' = {''alice'', ''bob'', ''carol''}"
  by (simp add: members_def screened_call_activeRooms)

lemma bound_in_screened_call: "bound_in socket_of screened_call ''r1''"
  by (simp add: bound_in_def inj_socket_of screened_call_sio_r1 screened_call_members
      socket_of_def)

text \<open>Who receives a broadcast.\<close>

lemma emit_own_room_only:
  assumes "own_room_only st s"
  shows "socket_to_emit s R msg (sio_rooms st) =
           map (\<lambda>t. (t, msg)) (filter (\<lambda>t. t \<noteq> s) (sio_rooms st R))"
  using assms by (simp add: socket_to_emit_def own_room_only_def)

lemma emit_to_members:
  assumes "bound_in conn st R" and "own_room_only st (conn A)"
  shows "set (socket_to_emit (conn A) R msg (sio_rooms st)) =
           (\<lambda>J. (conn J, msg)) ` (members st R - {A})"
proof -
  from assms(1) have i: "inj conn" and m: "set (sio_rooms st R) = conn ` members st R"
    by (simp_all add: bound_in_def)
  have "{t \<in> conn ` members st R. t \<noteq> conn A} = conn ` (members st R - {A})"
    using i by (auto simp: inj_def)
  then show ?thesis
    by (simp add: emit_own_room_only [OF assms(2)] m image_image)
qed

lemma emit_reaches_iff:
  assumes "bound_in conn st R" and "own_room_only st (conn A)"
  shows "(conn J, msg) \<in> set (socket_to_emit (conn A) R msg (sio_rooms st)) \<longleftrightarrow>
           J \<in> members st R \<and> J \<noteq> A"
proof -
  from assms(1) have "inj conn" by (simp add: bound_in_def)
  then show ?thesis
    unfolding emit_to_members [OF assms] by (auto simp: inj_def)
qed

lemma emit_sender_excluded:
  "own_room_only st s \<Longrightarrow> s \<notin> fst ` set (socket_to_emit s R msg (sio_rooms st))"
  by (auto simp: emit_own_room_only)

lemma filter_others_set_add:
  "filter (\<lambda>t. t \<noteq> s) (set_add s xs) = filter (\<lambda>t. t \<noteq> s) xs"
  by (simp add: set_add_def)

lemma filter_others_removeAll:
  "filter (\<lambda>t. t \<noteq> s) (removeAll s xs) = filter (\<lambda>t. t \<noteq> s) xs"
  by (induction xs) auto

lemma filter_others_absent: "s \<notin> set xs \<Longrightarrow> filter (\<lambda>t. t \<noteq> s) xs = xs"
  by (induction xs) auto

lemma filter_others_own: "set xs = {s} \<Longrightarrow> filter (\<lambda>t. t \<noteq> s) xs = []"
  by (auto simp: filter_empty_conv)

lemma snd_join_room:
  assumes "own_room_only st s"
  shows "snd (join_room s R I st) =
           map (\<lambda>t. (t, UserConnected I)) (filter (\<lambda>t. t \<noteq> s) (sio_rooms st R))"
proof -
  from assms have o: "set (sio_rooms st s) = {s}" by (simp add: own_room_only_def)
  then have "set (socket_join s R (sio_rooms st) s) = {s}"
    by (auto simp: socket_join_def set_add_set)
  moreover have "socket_join s R (sio_rooms st) R = set_add s (sio_rooms st R)"
    by (simp add: socket_join_def)
  ultimately show ?thesis
    by (simp add: join_room_def Let_def socket_to_emit_def filter_others_set_add)
qed

lemma snd_leave_room:
  assumes "own_room_only st s"
  shows "snd (leave_room s R I st) =
           map (\<lambda>t. (t, UserDisconnected I)) (filter (\<lambda>t. t \<noteq> s) (sio_rooms st R))"
proof (cases "R = s")
  case True
  from assms have o: "set (sio_rooms st s) = {s}" by (simp add: own_room_only_def)
  then have "removeAll s (sio_rooms st s) = []"
    by (auto simp: removeAll_filter_not_eq filter_empty_conv)
  with True o show ?thesis
    by (simp add: leave_room_def Let_def socket_to_emit_def socket_leave_def set_delete_def
        filter_others_own)
next
  case False
  from assms have o: "set (sio_rooms st s) = {s}" by (simp add: own_room_only_def)
  with False show ?thesis
    by (simp add: leave_room_def Let_def socket_to_emit_def socket_leave_def set_delete_def
        filter_others_removeAll)
qed

lemma emit_from_outside:
  "s \<notin> set (sio_rooms st R) \<Longrightarrow> own_room_only st s \<Longrightarrow>
   socket_to_emit s R msg (sio_rooms st) = map (\<lambda>t. (t, msg)) (sio_rooms st R)"
  by (simp add: emit_own_room_only filter_others_absent)

lemma activeRooms_leave_absent:
  assumes "nonempty_rooms (activeRooms st)" and "I \<notin> members st R"
  shows "activeRooms (fst (leave_room s R I st)) = activeRooms st"
proof (cases "map_of (activeRooms st) R")
  case None
  then show ?thesis by (simp add: leave_room_def Let_def)
next
  case (Some ps)
  with assms have "I \<notin> set ps" and "ps \<noteq> []"
    by (auto simp: members_def nonempty_rooms_def)
  with Some show ?thesis
    by (simp add: leave_room_def Let_def set_delete_def map_set_def update_triv)
qed

lemma activeRooms_join_present:
  assumes "I \<in> members st R"
  shows "activeRooms (fst (join_room s R I st)) = activeRooms st"
proof -
  from assms obtain ps where "map_of (activeRooms st) R = Some ps" and "I \<in> set ps"
    by (auto simp: members_def split: option.splits)
  then show ?thesis
    by (simp add: join_room_def Let_def map_has_def map_set_def set_add_def update_triv)
qed

lemma sio_rooms_join:
  "sio_rooms (fst (join_room s R I st)) = socket_join s R (sio_rooms st)"
  by (simp add: join_room_def Let_def)

lemma sio_rooms_leave:
  "sio_rooms (fst (leave_room s R I st)) = socket_leave s R (sio_rooms st)"
  by (simp add: leave_room_def Let_def)

text \<open>
  The binding is kept by a join or a leave that a connection sends for its own identity.
\<close>

lemma bound_in_join:
  assumes "bound_in conn st R"
  shows "bound_in conn (fst (join_room (conn I) R' I st)) R"
  using assms
  by (auto simp: bound_in_def members_join sio_rooms_join socket_join_def set_add_set)

lemma bound_in_leave:
  assumes "bound_in conn st R"
  shows "bound_in conn (fst (leave_room (conn I) R' I st)) R"
  using assms
  by (auto simp: bound_in_def members_leave sio_rooms_leave socket_leave_def
      set_delete_set inj_def)

text \<open>
  The room named by the id of a socket stays its own under joins and leaves that do not
  name it.
\<close>

lemma own_room_only_join:
  "own_room_only st s \<Longrightarrow> R \<noteq> s \<Longrightarrow> own_room_only (fst (join_room t R I st)) s"
  by (simp add: own_room_only_def sio_rooms_join socket_join_def)

lemma own_room_only_leave:
  "own_room_only st s \<Longrightarrow> R \<noteq> s \<Longrightarrow> own_room_only (fst (leave_room t R I st)) s"
  by (simp add: own_room_only_def sio_rooms_leave socket_leave_def)

subsection \<open>The claims\<close>

text \<open>
  C1, as amended. An \<^verbatim>\<open>offer\<close>, \<^verbatim>\<open>answer\<close> or \<^verbatim>\<open>ice-candidate\<close> naming room
  \<open>R\<close> and target \<open>T\<close>, sent from socket \<open>s\<close>, is not routed to the target: the
  handler leaves the state unchanged and broadcasts the message, with \<open>T\<close> as an
  argument, to every socket joined to \<open>R\<close> that is not joined to the room named by
  \<open>s\<close>, whatever \<open>T\<close> and the membership set of \<open>R\<close> are. In a state where the
  sockets joined to \<open>R\<close> are exactly the connections of the members of \<open>R\<close> and the
  sender alone is joined to the room named by its id, the recipients are the connections
  of all members of \<open>R\<close> other than the sender: the connection of \<open>T\<close> is among them
  exactly when \<open>T\<close> is a member of \<open>R\<close> other than the sender. No handler has a
  failing path, so nothing surfaces to the sender.
\<close>

theorem signaling_relayed_to_room:
  "offer s R p T st =
     (st, map (\<lambda>t. (t, OfferMsg p s T))
            (filter (\<lambda>t. t \<notin> set (sio_rooms st s)) (sio_rooms st R))) \<and>
   answer s R p T st =
     (st, map (\<lambda>t. (t, AnswerMsg p s T))
            (filter (\<lambda>t. t \<notin> set (sio_rooms st s)) (sio_rooms st R))) \<and>
   ice_candidate s R p T st =
     (st, map (\<lambda>t. (t, IceCandidateMsg p s T))
            (filter (\<lambda>t. t \<notin> set (sio_rooms st s)) (sio_rooms st R))) \<and>
   (bound_in conn st R \<and> own_room_only st (conn A) \<longrightarrow>
      set (snd (offer (conn A) R p T st)) =
        (\<lambda>J. (conn J, OfferMsg p (conn A) T)) ` (members st R - {A}) \<and>
      set (snd (answer (conn A) R p T st)) =
        (\<lambda>J. (conn J, AnswerMsg p (conn A) T)) ` (members st R - {A}) \<and>
      set (snd (ice_candidate (conn A) R p T st)) =
        (\<lambda>J. (conn J, IceCandidateMsg p (conn A) T)) ` (members st R - {A}) \<and>
      ((conn T, OfferMsg p (conn A) T) \<in> set (snd (offer (conn A) R p T st)) \<longleftrightarrow>
         T \<in> members st R \<and> T \<noteq> A) \<and>
      ((conn T, AnswerMsg p (conn A) T) \<in> set (snd (answer (conn A) R p T st)) \<longleftrightarrow>
         T \<in> members st R \<and> T \<noteq> A) \<and>
      ((conn T, IceCandidateMsg p (conn A) T) \<in> set (snd (ice_candidate (conn A) R p T st)) \<longleftrightarrow>
         T \<in> members st R \<and> T \<noteq> A))"
proof (intro conjI impI)
  show "offer s R p T st =
     (st, map (\<lambda>t. (t, OfferMsg p s T))
            (filter (\<lambda>t. t \<notin> set (sio_rooms st s)) (sio_rooms st R)))"
    by (simp add: offer_def socket_to_emit_def)
  show "answer s R p T st =
     (st, map (\<lambda>t. (t, AnswerMsg p s T))
            (filter (\<lambda>t. t \<notin> set (sio_rooms st s)) (sio_rooms st R)))"
    by (simp add: answer_def socket_to_emit_def)
  show "ice_candidate s R p T st =
     (st, map (\<lambda>t. (t, IceCandidateMsg p s T))
            (filter (\<lambda>t. t \<notin> set (sio_rooms st s)) (sio_rooms st R)))"
    by (simp add: ice_candidate_def socket_to_emit_def)
next
  assume h: "bound_in conn st R \<and> own_room_only st (conn A)"
  then have b: "bound_in conn st R" and w: "own_room_only st (conn A)" by simp_all
  let ?to = "\<lambda>msg. socket_to_emit (conn A) R msg (sio_rooms st)"
  have o: "snd (offer (conn A) R p T st) = ?to (OfferMsg p (conn A) T)"
    and a: "snd (answer (conn A) R p T st) = ?to (AnswerMsg p (conn A) T)"
    and c: "snd (ice_candidate (conn A) R p T st) = ?to (IceCandidateMsg p (conn A) T)"
    by (simp_all add: offer_def answer_def ice_candidate_def)
  have sets: "set (?to msg) = (\<lambda>J. (conn J, msg)) ` (members st R - {A})" for msg
    by (rule emit_to_members [OF b w])
  have iffs: "(conn T, msg) \<in> set (?to msg) \<longleftrightarrow> T \<in> members st R \<and> T \<noteq> A" for msg
    by (rule emit_reaches_iff [OF b w])
  show "set (snd (offer (conn A) R p T st)) =
        (\<lambda>J. (conn J, OfferMsg p (conn A) T)) ` (members st R - {A})"
    unfolding o by (rule sets)
  show "set (snd (answer (conn A) R p T st)) =
        (\<lambda>J. (conn J, AnswerMsg p (conn A) T)) ` (members st R - {A})"
    unfolding a by (rule sets)
  show "set (snd (ice_candidate (conn A) R p T st)) =
        (\<lambda>J. (conn J, IceCandidateMsg p (conn A) T)) ` (members st R - {A})"
    unfolding c by (rule sets)
  show "(conn T, OfferMsg p (conn A) T) \<in> set (snd (offer (conn A) R p T st)) \<longleftrightarrow>
         T \<in> members st R \<and> T \<noteq> A"
    unfolding o by (rule iffs)
  show "(conn T, AnswerMsg p (conn A) T) \<in> set (snd (answer (conn A) R p T st)) \<longleftrightarrow>
         T \<in> members st R \<and> T \<noteq> A"
    unfolding a by (rule iffs)
  show "(conn T, IceCandidateMsg p (conn A) T) \<in> set (snd (ice_candidate (conn A) R p T st)) \<longleftrightarrow>
         T \<in> members st R \<and> T \<noteq> A"
    unfolding c by (rule iffs)
qed

theorem signaling_relayed_to_room_witness:
  "bound_in socket_of call_r1 ''r1'' \<and> own_room_only call_r1 (socket_of ''alice'') \<and>
   set (snd (offer (socket_of ''alice'') ''r1'' ''sdp1'' ''dave'' call_r1)) =
     {(''s-bob'', OfferMsg ''sdp1'' ''s-alice'' ''dave''),
      (''s-carol'', OfferMsg ''sdp1'' ''s-alice'' ''dave'')} \<and>
   (socket_of ''bob'', OfferMsg ''sdp1'' (socket_of ''alice'') ''bob'')
     \<in> set (snd (offer (socket_of ''alice'') ''r1'' ''sdp1'' ''bob'' call_r1))"
proof -
  have w: "own_room_only call_r1 (socket_of ''alice'')"
    by (simp add: socket_of_def own_room_only_call_r1)
  have c: "bound_in socket_of call_r1 ''r1'' \<and> own_room_only call_r1 (socket_of ''alice'')"
    using bound_in_call_r1 w by simp
  note to_dave =
    signaling_relayed_to_room
      [of "''s-alice''" "''r1''" "''sdp1''" "''dave''" call_r1 socket_of "''alice''",
       THEN conjunct2, THEN conjunct2, THEN conjunct2, THEN mp, OF c]
  note to_bob =
    signaling_relayed_to_room
      [of "''s-alice''" "''r1''" "''sdp1''" "''bob''" call_r1 socket_of "''alice''",
       THEN conjunct2, THEN conjunct2, THEN conjunct2, THEN mp, OF c]
  from to_dave to_bob c show ?thesis
    by (simp add: call_r1_members socket_of_def insert_Diff_if)
qed

text \<open>
  In the concrete call an offer from \<^verbatim>\<open>alice\<close> reaches two connections, both when
  its target is the member \<^verbatim>\<open>bob\<close> and when its target is \<^verbatim>\<open>dave\<close>, who is
  not a member.
\<close>

theorem offer_reaches_whole_room_counterexample:
  "''bob'' \<in> members call_r1 ''r1'' \<and>
   snd (offer ''s-alice'' ''r1'' ''sdp1'' ''bob'' call_r1) =
     [(''s-bob'', OfferMsg ''sdp1'' ''s-alice'' ''bob''),
      (''s-carol'', OfferMsg ''sdp1'' ''s-alice'' ''bob'')] \<and>
   ''dave'' \<notin> members call_r1 ''r1'' \<and>
   snd (offer ''s-alice'' ''r1'' ''sdp1'' ''dave'' call_r1) =
     [(''s-bob'', OfferMsg ''sdp1'' ''s-alice'' ''dave''),
      (''s-carol'', OfferMsg ''sdp1'' ''s-alice'' ''dave'')]"
  by (simp add: call_r1_members offer_def socket_to_emit_def call_r1_sio_r1 call_r1_sio_alice)

text \<open>
  C2. The claim asks that a transport close acts as a leave for the identity bound to the
  connection. The disconnect handler looks for the socket id in the membership sets, which
  hold the user ids given at \<^verbatim>\<open>join-room\<close>. In the concrete call, closing the
  socket of \<^verbatim>\<open>alice\<close> leaves her in the membership set of \<^verbatim>\<open>r1\<close> and notifies
  nobody, where the explicit leave removes her and notifies the two others.
\<close>

theorem disconnect_misses_user_id:
  "''alice'' \<in> members call_r1 ''r1'' \<and>
   activeRooms (fst (disconnect ''s-alice'' call_r1)) = [(''r1'', [''alice'', ''bob'', ''carol''])] \<and>
   snd (disconnect ''s-alice'' call_r1) = [] \<and>
   activeRooms (fst (leave_room ''s-alice'' ''r1'' ''alice'' call_r1)) = [(''r1'', [''bob'', ''carol''])] \<and>
   snd (leave_room ''s-alice'' ''r1'' ''alice'' call_r1) =
     [(''s-bob'', UserDisconnected ''alice''), (''s-carol'', UserDisconnected ''alice'')]"
  by (simp add: call_r1_members call_r1_activeRooms call_r1_sio_r1 call_r1_sio_alice Let_def
      disconnect_def leave_room_def socket_to_emit_def socket_leave_def set_delete_def
      map_set_def map_delete_def)

text \<open>
  C3. After any sequence of \<^verbatim>\<open>join-room\<close> and \<^verbatim>\<open>leave-room\<close> events on the
  initial state, an identity is a member of a room exactly when it joined the room and did
  not subsequently leave it. Joining a room with an identity already present, and leaving
  with an identity not present, change no membership set.
\<close>

theorem membership_is_joined_not_left:
  "(list_all join_or_leave evs \<longrightarrow>
      (I \<in> members (run evs initial) R \<longleftrightarrow> joined_not_left evs R I)) \<and>
   (I \<in> members st R \<longrightarrow> members (fst (join_room s R I st)) = members st) \<and>
   (I \<notin> members st R \<longrightarrow> members (fst (leave_room s R I st)) = members st)"
proof (intro conjI impI)
  assume "list_all join_or_leave evs"
  from members_run_join_or_leave [OF this, of I initial R]
  show "I \<in> members (run evs initial) R \<longleftrightarrow> joined_not_left evs R I"
    by (simp add: members_initial)
next
  assume "I \<in> members st R"
  then show "members (fst (join_room s R I st)) = members st"
    by (auto simp: fun_eq_iff members_join)
next
  assume "I \<notin> members st R"
  then show "members (fst (leave_room s R I st)) = members st"
    by (auto simp: fun_eq_iff members_leave)
qed

theorem membership_is_joined_not_left_witness:
  "list_all join_or_leave join_leave_events \<and>
   joined_not_left join_leave_events ''r1'' ''bob'' \<and>
   ''bob'' \<in> members (run join_leave_events initial) ''r1'' \<and>
   \<not> joined_not_left join_leave_events ''r1'' ''alice'' \<and>
   ''alice'' \<notin> members (run join_leave_events initial) ''r1''"
  using membership_is_joined_not_left [of join_leave_events "''bob''" "''r1''"]
    membership_is_joined_not_left [of join_leave_events "''alice''" "''r1''"]
  by (simp add: join_leave_events_def)

text \<open>
  C4. After every sequence of events (joins, leaves, disconnects and all others), a room
  id has an entry in the table if and only if its membership set is not empty.
\<close>

theorem room_exists_iff_nonempty:
  "room_exists (run evs initial) R \<longleftrightarrow> members (run evs initial) R \<noteq> {}"
  using nonempty_rooms_run [OF nonempty_rooms_initial, of evs]
  by (auto simp: room_exists_def map_has_def members_def nonempty_rooms_def split: option.splits)

theorem room_exists_iff_nonempty_witness:
  "room_exists call_r1 ''r1'' \<and> members call_r1 ''r1'' \<noteq> {} \<and>
   \<not> room_exists call_r1 ''r2'' \<and> members call_r1 ''r2'' = {}"
  using room_exists_iff_nonempty [of call_r1_events "''r1''"]
    room_exists_iff_nonempty [of call_r1_events "''r2''"]
  by (simp add: call_r1_def [symmetric] room_exists_def map_has_def call_r1_activeRooms)

text \<open>
  C5, as amended. The handlers let an identity join a second room while it is a member of
  a first. In the runs where no \<^verbatim>\<open>join-room\<close> is sent for an identity that is a
  member of another room, every identity is a member of at most one room.
\<close>

theorem one_room_when_joins_exclusive:
  "exclusive_joins evs initial \<Longrightarrow> one_room_each (run evs initial)"
  by (rule one_room_each_run [OF nonempty_rooms_initial])
     (simp_all add: one_room_each_def members_initial)

theorem one_room_when_joins_exclusive_witness:
  "exclusive_joins moved_rooms_events initial \<and> one_room_each (run moved_rooms_events initial) \<and>
   members (run moved_rooms_events initial) ''r1'' = {} \<and>
   members (run moved_rooms_events initial) ''r2'' = {''alice''}"
proof -
  have e: "exclusive_joins moved_rooms_events initial"
    by (simp add: moved_rooms_events_def initial_def handler_defs)
  have "activeRooms (run moved_rooms_events initial) = [(''r2'', [''alice''])]"
    by (simp add: moved_rooms_events_def run_def initial_def handler_defs)
  with one_room_when_joins_exclusive [OF e] e show ?thesis
    by (simp add: members_def)
qed

text \<open>Joining twice puts one identity in two rooms.\<close>

theorem identity_in_two_rooms_counterexample:
  "''alice'' \<in> members joined_twice ''r1'' \<and> ''alice'' \<in> members joined_twice ''r2'' \<and>
   ''r1'' \<noteq> ''r2''"
  by (simp add: joined_twice_def members_def run_def initial_def handler_defs)

text \<open>
  C6, as amended. A \<^verbatim>\<open>toggle-audio\<close> for room \<open>R\<close> and identity \<open>A\<close> sent from
  socket \<open>s\<close> leaves the state unchanged and reaches, as \<^verbatim>\<open>user-audio-toggled\<close>
  with \<open>A\<close> and the flag, every socket joined to \<open>R\<close> that is not joined to the room
  named by \<open>s\<close>. When it is sent by the connection of \<open>A\<close> while \<open>A\<close> is a member
  of \<open>R\<close>, in a state where the sockets joined to \<open>R\<close> are exactly the connections of
  the members of \<open>R\<close> and the sender alone is joined to the room named by its id, it
  reaches the connection of every member of \<open>R\<close> except \<open>A\<close>, and not the connection
  of \<open>A\<close>. The same holds for \<^verbatim>\<open>toggle-video\<close>.
\<close>

theorem toggle_reaches_other_members:
  "toggle_audio s R A en st =
     (st, map (\<lambda>t. (t, UserAudioToggled A en))
            (filter (\<lambda>t. t \<notin> set (sio_rooms st s)) (sio_rooms st R))) \<and>
   toggle_video s R A en st =
     (st, map (\<lambda>t. (t, UserVideoToggled A en))
            (filter (\<lambda>t. t \<notin> set (sio_rooms st s)) (sio_rooms st R))) \<and>
   (bound_in conn st R \<and> own_room_only st (conn A) \<and> A \<in> members st R \<longrightarrow>
      set (snd (toggle_audio (conn A) R A en st)) =
        (\<lambda>J. (conn J, UserAudioToggled A en)) ` (members st R - {A}) \<and>
      conn A \<notin> fst ` set (snd (toggle_audio (conn A) R A en st)) \<and>
      set (snd (toggle_video (conn A) R A en st)) =
        (\<lambda>J. (conn J, UserVideoToggled A en)) ` (members st R - {A}) \<and>
      conn A \<notin> fst ` set (snd (toggle_video (conn A) R A en st)))"
proof (intro conjI impI)
  show "toggle_audio s R A en st =
     (st, map (\<lambda>t. (t, UserAudioToggled A en))
            (filter (\<lambda>t. t \<notin> set (sio_rooms st s)) (sio_rooms st R)))"
    by (simp add: toggle_audio_def socket_to_emit_def)
  show "toggle_video s R A en st =
     (st, map (\<lambda>t. (t, UserVideoToggled A en))
            (filter (\<lambda>t. t \<notin> set (sio_rooms st s)) (sio_rooms st R)))"
    by (simp add: toggle_video_def socket_to_emit_def)
next
  assume "bound_in conn st R \<and> own_room_only st (conn A) \<and> A \<in> members st R"
  then have b: "bound_in conn st R" and w: "own_room_only st (conn A)" by simp_all
  let ?to = "\<lambda>msg. socket_to_emit (conn A) R msg (sio_rooms st)"
  have a: "snd (toggle_audio (conn A) R A en st) = ?to (UserAudioToggled A en)"
    and v: "snd (toggle_video (conn A) R A en st) = ?to (UserVideoToggled A en)"
    by (simp_all add: toggle_audio_def toggle_video_def)
  show "set (snd (toggle_audio (conn A) R A en st)) =
        (\<lambda>J. (conn J, UserAudioToggled A en)) ` (members st R - {A})"
    unfolding a by (rule emit_to_members [OF b w])
  show "conn A \<notin> fst ` set (snd (toggle_audio (conn A) R A en st))"
    unfolding a by (rule emit_sender_excluded [OF w])
  show "set (snd (toggle_video (conn A) R A en st)) =
        (\<lambda>J. (conn J, UserVideoToggled A en)) ` (members st R - {A})"
    unfolding v by (rule emit_to_members [OF b w])
  show "conn A \<notin> fst ` set (snd (toggle_video (conn A) R A en st))"
    unfolding v by (rule emit_sender_excluded [OF w])
qed

theorem toggle_reaches_other_members_witness:
  "bound_in socket_of call_r1 ''r1'' \<and> own_room_only call_r1 (socket_of ''alice'') \<and>
   ''alice'' \<in> members call_r1 ''r1'' \<and>
   set (snd (toggle_audio (socket_of ''alice'') ''r1'' ''alice'' False call_r1)) =
     {(''s-bob'', UserAudioToggled ''alice'' False),
      (''s-carol'', UserAudioToggled ''alice'' False)} \<and>
   socket_of ''alice'' \<notin> fst ` set (snd (toggle_audio (socket_of ''alice'') ''r1'' ''alice'' False call_r1))"
proof -
  have m: "''alice'' \<in> members call_r1 ''r1''" by (simp add: call_r1_members)
  have w: "own_room_only call_r1 (socket_of ''alice'')"
    by (simp add: socket_of_def own_room_only_call_r1)
  have c: "bound_in socket_of call_r1 ''r1'' \<and> own_room_only call_r1 (socket_of ''alice'') \<and>
           ''alice'' \<in> members call_r1 ''r1''"
    using bound_in_call_r1 w m by simp
  note t =
    toggle_reaches_other_members
      [of "''s-alice''" "''r1''" "''alice''" False call_r1 socket_of,
       THEN conjunct2, THEN conjunct2, THEN mp, OF c]
  from t c show ?thesis
    by (simp add: call_r1_members socket_of_def insert_Diff_if)
qed

text \<open>
  In the call of two, the socket of \<^verbatim>\<open>bob\<close> has joined the room named by the
  socket id of \<^verbatim>\<open>alice\<close>: both are members of \<^verbatim>\<open>r1\<close>, each on its own
  connection, and the toggle of \<^verbatim>\<open>alice\<close> reaches nobody.
\<close>

theorem toggle_skips_member_counterexample:
  "''alice'' \<in> members muted_call ''r1'' \<and> ''bob'' \<in> members muted_call ''r1'' \<and>
   bound_in socket_of muted_call ''r1'' \<and>
   snd (toggle_audio (socket_of ''alice'') ''r1'' ''alice'' False muted_call) = []"
  by (simp add: muted_call_members bound_in_muted_call toggle_audio_def socket_to_emit_def
      socket_of_def muted_call_sio_r1 muted_call_sio_alice)

text \<open>
  C7, as amended. The relay handlers do not look at the rooms of the sender. A signaling
  or toggle event from a socket that is not in the named room, while that socket alone is
  joined to the room named by its id, raises no error and changes no state, and is
  delivered to every socket in the named room.
\<close>

theorem relay_ignores_sender_room:
  assumes "s \<notin> set (sio_rooms st R)" and "own_room_only st s"
  shows "offer s R p T st = (st, map (\<lambda>t. (t, OfferMsg p s T)) (sio_rooms st R)) \<and>
         answer s R p T st = (st, map (\<lambda>t. (t, AnswerMsg p s T)) (sio_rooms st R)) \<and>
         ice_candidate s R p T st = (st, map (\<lambda>t. (t, IceCandidateMsg p s T)) (sio_rooms st R)) \<and>
         toggle_audio s R U en st = (st, map (\<lambda>t. (t, UserAudioToggled U en)) (sio_rooms st R)) \<and>
         toggle_video s R U en st = (st, map (\<lambda>t. (t, UserVideoToggled U en)) (sio_rooms st R))"
  by (simp add: offer_def answer_def ice_candidate_def toggle_audio_def toggle_video_def
      emit_from_outside [OF assms])

theorem relay_ignores_sender_room_witness:
  "''s-dave'' \<notin> set (sio_rooms call_r1 ''r1'') \<and> own_room_only call_r1 ''s-dave'' \<and>
   offer ''s-dave'' ''r1'' ''sdp1'' ''bob'' call_r1 =
     (call_r1, [(''s-alice'', OfferMsg ''sdp1'' ''s-dave'' ''bob''),
                (''s-bob'', OfferMsg ''sdp1'' ''s-dave'' ''bob''),
                (''s-carol'', OfferMsg ''sdp1'' ''s-dave'' ''bob'')])"
proof -
  have o: "''s-dave'' \<notin> set (sio_rooms call_r1 ''r1'')" by (simp add: call_r1_sio_r1)
  from relay_ignores_sender_room [OF o own_room_only_call_r1(2), of "''sdp1''" "''bob''"]
    o own_room_only_call_r1(2)
  show ?thesis by (simp add: call_r1_sio_r1)
qed

text \<open>
  The fourth socket of the concrete call is in no room, and its toggle for \<^verbatim>\<open>r1\<close>
  reaches all three participants.
\<close>

theorem outsider_toggle_delivered_counterexample:
  "''s-dave'' \<notin> set (sio_rooms call_r1 ''r1'') \<and> ''dave'' \<notin> members call_r1 ''r1'' \<and>
   snd (toggle_audio ''s-dave'' ''r1'' ''dave'' False call_r1) =
     [(''s-alice'', UserAudioToggled ''dave'' False),
      (''s-bob'', UserAudioToggled ''dave'' False),
      (''s-carol'', UserAudioToggled ''dave'' False)]"
  by (simp add: call_r1_sio_r1 call_r1_sio_dave call_r1_members toggle_audio_def
      socket_to_emit_def)

text \<open>
  C8, as amended. In every reachable state, a \<^verbatim>\<open>leave-room\<close> for an identity that
  is not a member of the room (or for a room with no entry) leaves the room table
  unchanged; yet \<^verbatim>\<open>user-disconnected\<close> for that identity is still emitted: when the
  sender alone is joined to the room named by its id, to every other socket in the room.
\<close>

theorem leave_of_non_member:
  assumes "I \<notin> members (run evs initial) R"
  shows "activeRooms (fst (leave_room s R I (run evs initial))) = activeRooms (run evs initial) \<and>
         (own_room_only (run evs initial) s \<longrightarrow>
            snd (leave_room s R I (run evs initial)) =
              map (\<lambda>t. (t, UserDisconnected I))
                (filter (\<lambda>t. t \<noteq> s) (sio_rooms (run evs initial) R)))"
  using activeRooms_leave_absent [OF nonempty_rooms_run [OF nonempty_rooms_initial] assms]
  by (simp add: snd_leave_room)

theorem leave_of_non_member_witness:
  "''zed'' \<notin> members call_r1 ''r1'' \<and> own_room_only call_r1 ''s-alice'' \<and>
   activeRooms (fst (leave_room ''s-alice'' ''r1'' ''zed'' call_r1)) =
     [(''r1'', [''alice'', ''bob'', ''carol''])] \<and>
   snd (leave_room ''s-alice'' ''r1'' ''zed'' call_r1) =
     [(''s-bob'', UserDisconnected ''zed''), (''s-carol'', UserDisconnected ''zed'')]"
proof -
  have z: "''zed'' \<notin> members (run call_r1_events initial) ''r1''"
    by (simp add: call_r1_def [symmetric] call_r1_members)
  from leave_of_non_member [OF z, of "''s-alice''"] z own_room_only_call_r1(1)
  show ?thesis
    by (simp add: call_r1_def [symmetric] call_r1_activeRooms call_r1_sio_r1)
qed

text \<open>
  A leave for \<^verbatim>\<open>zed\<close>, who is not a member of \<^verbatim>\<open>r1\<close>, notifies the other two
  connections.
\<close>

theorem leave_of_non_member_notifies_counterexample:
  "''zed'' \<notin> members call_r1 ''r1'' \<and>
   snd (leave_room ''s-alice'' ''r1'' ''zed'' call_r1) =
     [(''s-bob'', UserDisconnected ''zed''), (''s-carol'', UserDisconnected ''zed'')]"
  by (simp add: call_r1_members snd_leave_room [OF own_room_only_call_r1(1)] call_r1_sio_r1)

text \<open>
  C9, as amended. On \<^verbatim>\<open>join-room\<close> for room \<open>R\<close> and identity \<open>I\<close>, sent by the
  connection of \<open>I\<close> in a state where the sockets joined to \<open>R\<close> are exactly the
  connections of the members of \<open>R\<close> and the sender alone is joined to the room named by
  its id, \<^verbatim>\<open>user-connected\<close> for \<open>I\<close> reaches exactly the connections of the members
  \<open>R\<close> had before the join, \<open>I\<close> itself apart, and never the joining connection; when
  \<open>I\<close> was not yet a member these are all the prior members.
\<close>

theorem join_notifies_prior_members:
  assumes "bound_in conn st R" and "own_room_only st (conn I)"
  shows "set (snd (join_room (conn I) R I st)) =
           (\<lambda>J. (conn J, UserConnected I)) ` (members st R - {I}) \<and>
         conn I \<notin> fst ` set (snd (join_room (conn I) R I st)) \<and>
         (I \<notin> members st R \<longrightarrow>
            set (snd (join_room (conn I) R I st)) =
              (\<lambda>J. (conn J, UserConnected I)) ` members st R)"
proof -
  have e: "snd (join_room (conn I) R I st) =
             socket_to_emit (conn I) R (UserConnected I) (sio_rooms st)"
    by (simp add: snd_join_room [OF assms(2)] emit_own_room_only [OF assms(2)])
  have "set (snd (join_room (conn I) R I st)) =
          (\<lambda>J. (conn J, UserConnected I)) ` (members st R - {I})"
    unfolding e by (rule emit_to_members [OF assms])
  moreover have "conn I \<notin> fst ` set (snd (join_room (conn I) R I st))"
    unfolding e by (rule emit_sender_excluded [OF assms(2)])
  ultimately show ?thesis by simp
qed

theorem join_notifies_prior_members_witness:
  "bound_in socket_of call_r1 ''r1'' \<and> own_room_only call_r1 (socket_of ''dave'') \<and>
   ''dave'' \<notin> members call_r1 ''r1'' \<and>
   set (snd (join_room (socket_of ''dave'') ''r1'' ''dave'' call_r1)) =
     {(''s-alice'', UserConnected ''dave''), (''s-bob'', UserConnected ''dave''),
      (''s-carol'', UserConnected ''dave'')} \<and>
   socket_of ''dave'' \<notin> fst ` set (snd (join_room (socket_of ''dave'') ''r1'' ''dave'' call_r1))"
proof -
  have w: "own_room_only call_r1 (socket_of ''dave'')"
    by (simp add: socket_of_def own_room_only_call_r1)
  from join_notifies_prior_members [OF bound_in_call_r1 w] bound_in_call_r1 w
  show ?thesis
    by (simp add: call_r1_members) (simp add: socket_of_def)
qed

text \<open>
  In the call of three, the socket of \<^verbatim>\<open>bob\<close> has joined the room named by the id
  of the fourth socket. When the fourth socket joins \<^verbatim>\<open>r1\<close> as \<^verbatim>\<open>dave\<close>, the
  prior member \<^verbatim>\<open>bob\<close> is not notified.
\<close>

theorem join_skips_prior_member_counterexample:
  "''bob'' \<in> members screened_call ''r1'' \<and> ''dave'' \<notin> members screened_call ''r1'' \<and>
   bound_in socket_of screened_call ''r1'' \<and>
   snd (join_room (socket_of ''dave'') ''r1'' ''dave'' screened_call) =
     [(''s-alice'', UserConnected ''dave''), (''s-carol'', UserConnected ''dave'')]"
  by (simp add: screened_call_members bound_in_screened_call join_room_def Let_def
      socket_to_emit_def socket_join_def set_add_def socket_of_def screened_call_sio_r1
      screened_call_sio_dave)

text \<open>
  C10, as amended. A \<^verbatim>\<open>join-room\<close> for an identity that is already a member of the
  room leaves the room table unchanged (the whole state, when the connection of the
  identity sends it), and the notification is not suppressed: \<^verbatim>\<open>user-connected\<close> is
  emitted again as on a first join. When the sender alone is joined to the room named by
  its id, it goes to every other socket in the room; these are the connections of the
  other members when the sockets joined to the room are exactly the connections of its
  members.
\<close>

theorem duplicate_join_renotifies:
  assumes "I \<in> members st R"
  shows "activeRooms (fst (join_room s R I st)) = activeRooms st \<and>
         (own_room_only st s \<longrightarrow>
            snd (join_room s R I st) =
              map (\<lambda>t. (t, UserConnected I)) (filter (\<lambda>t. t \<noteq> s) (sio_rooms st R))) \<and>
         (bound_in conn st R \<and> own_room_only st (conn I) \<longrightarrow>
            fst (join_room (conn I) R I st) = st \<and>
            set (snd (join_room (conn I) R I st)) =
              (\<lambda>J. (conn J, UserConnected I)) ` (members st R - {I}))"
proof (intro conjI impI)
  show "activeRooms (fst (join_room s R I st)) = activeRooms st"
    by (rule activeRooms_join_present [OF assms])
next
  assume "own_room_only st s"
  then show "snd (join_room s R I st) =
          map (\<lambda>t. (t, UserConnected I)) (filter (\<lambda>t. t \<noteq> s) (sio_rooms st R))"
    by (rule snd_join_room)
next
  assume h: "bound_in conn st R \<and> own_room_only st (conn I)"
  then have b: "bound_in conn st R" and w: "own_room_only st (conn I)" by simp_all
  from b assms have "conn I \<in> set (sio_rooms st R)" by (simp add: bound_in_def)
  then have "socket_join (conn I) R (sio_rooms st) = sio_rooms st"
    by (simp add: socket_join_def set_add_def)
  then have "sio_rooms (fst (join_room (conn I) R I st)) = sio_rooms st"
    by (simp add: sio_rooms_join)
  with activeRooms_join_present [OF assms, of "conn I"]
  show "fst (join_room (conn I) R I st) = st" by simp
  have "snd (join_room (conn I) R I st) =
          socket_to_emit (conn I) R (UserConnected I) (sio_rooms st)"
    by (simp add: snd_join_room [OF w] emit_own_room_only [OF w])
  then show "set (snd (join_room (conn I) R I st)) =
          (\<lambda>J. (conn J, UserConnected I)) ` (members st R - {I})"
    by (simp add: emit_to_members [OF b w])
qed

theorem duplicate_join_renotifies_witness:
  "''alice'' \<in> members call_r1 ''r1'' \<and> bound_in socket_of call_r1 ''r1'' \<and>
   own_room_only call_r1 ''s-alice'' \<and>
   fst (join_room (socket_of ''alice'') ''r1'' ''alice'' call_r1) = call_r1 \<and>
   snd (join_room ''s-alice'' ''r1'' ''alice'' call_r1) =
     [(''s-bob'', UserConnected ''alice''), (''s-carol'', UserConnected ''alice'')]"
proof -
  have m: "''alice'' \<in> members call_r1 ''r1''" by (simp add: call_r1_members)
  have w: "own_room_only call_r1 (socket_of ''alice'')"
    by (simp add: socket_of_def own_room_only_call_r1)
  from duplicate_join_renotifies [OF m, of "''s-alice''" socket_of]
    m bound_in_call_r1 own_room_only_call_r1(1) w
  show ?thesis by (simp add: call_r1_sio_r1)
qed

text \<open>
  In the call of two, where the socket of \<^verbatim>\<open>bob\<close> has joined the room named by
  the socket id of \<^verbatim>\<open>alice\<close>, a second join of \<^verbatim>\<open>alice\<close> notifies nobody,
  though \<^verbatim>\<open>bob\<close> is another member.
\<close>

theorem duplicate_join_skips_member_counterexample:
  "''alice'' \<in> members muted_call ''r1'' \<and> ''bob'' \<in> members muted_call ''r1'' \<and>
   snd (join_room ''s-alice'' ''r1'' ''alice'' muted_call) = []"
  by (simp add: muted_call_members join_room_def Let_def socket_to_emit_def socket_join_def
      set_add_def muted_call_sio_r1 muted_call_sio_alice)

end
